theory Spec2Isabelle
  imports Main "HOL-Library.Word" "HOL-Library.Code_Target_Nat"
begin

section \<open>Platform values: bytes, strings, text decoding\<close>

text \<open>
  A chunk delivered by \<^verbatim>\<open>reader.read()\<close> is a \<^verbatim>\<open>Uint8Array\<close>: a list of bytes.
  A JavaScript string is a sequence of UTF-16 code units; it is kept as the list of
  their numeric values (each below \<open>65536\<close>), so that \<^verbatim>\<open>split\<close>, \<^verbatim>\<open>startsWith\<close> and
  \<^verbatim>\<open>slice\<close> count what the source counts.
\<close>

type_synonym byte = "8 word"
type_synonym jsstring = "nat list"

definition str :: "string \<Rightarrow> jsstring" where
  \<comment> \<open>an ASCII literal of the source as a JavaScript string\<close>
  "str s = map of_char s"

subsection \<open>\<^verbatim>\<open>new TextDecoder().decode(value)\<close>\<close>

text \<open>
  The UTF-8 decoder of the Encoding Standard, in replacement mode (the default
  \<^verbatim>\<open>fatal: false\<close>): \<open>code_point\<close>, \<open>bytes_seen\<close>, \<open>bytes_needed\<close> and the two
  boundaries are the decoder's state; a malformed sequence yields U+FFFD.
  \<open>b AND 0x1F\<close> is written \<open>b mod 32\<close> and \<open>(cp << 6) | (b AND 0x3F)\<close> is written
  \<open>cp * 64 + b mod 64\<close>.
\<close>

record utf8_state =
  code_point :: nat
  bytes_seen :: nat
  bytes_needed :: nat
  lower_boundary :: nat
  upper_boundary :: nat

definition utf8_init :: utf8_state where
  "utf8_init = \<lparr>code_point = 0, bytes_seen = 0, bytes_needed = 0,
                 lower_boundary = 0x80, upper_boundary = 0xBF\<rparr>"

definition replacement :: nat where
  "replacement = 0xFFFD"

definition utf8_lead :: "nat \<Rightarrow> nat list \<times> utf8_state" where
  \<comment> \<open>the handler when \<open>bytes_needed\<close> is 0: the code points emitted and the next state\<close>
  "utf8_lead b =
     (if b \<le> 0x7F then ([b], utf8_init)
      else if 0xC2 \<le> b \<and> b \<le> 0xDF then
        ([], utf8_init\<lparr>bytes_needed := 1, code_point := b mod 32\<rparr>)
      else if 0xE0 \<le> b \<and> b \<le> 0xEF then
        ([], utf8_init\<lparr>lower_boundary := (if b = 0xE0 then 0xA0 else 0x80),
                       upper_boundary := (if b = 0xED then 0x9F else 0xBF),
                       bytes_needed := 2, code_point := b mod 16\<rparr>)
      else if 0xF0 \<le> b \<and> b \<le> 0xF4 then
        ([], utf8_init\<lparr>lower_boundary := (if b = 0xF0 then 0x90 else 0x80),
                       upper_boundary := (if b = 0xF4 then 0x8F else 0xBF),
                       bytes_needed := 3, code_point := b mod 8\<rparr>)
      else ([replacement], utf8_init))"

fun utf8_decode :: "utf8_state \<Rightarrow> nat list \<Rightarrow> nat list" where
  "utf8_decode s [] = (if bytes_needed s \<noteq> 0 then [replacement] else [])"
| "utf8_decode s (b # bs) =
     (if bytes_needed s = 0 then
        (case utf8_lead b of (out, s') \<Rightarrow> out @ utf8_decode s' bs)
      else if b < lower_boundary s \<or> upper_boundary s < b then
        \<comment> \<open>error; the byte is restored to the queue and handled from the initial state\<close>
        (case utf8_lead b of (out, s') \<Rightarrow> replacement # out @ utf8_decode s' bs)
      else
        (let cp = code_point s * 64 + b mod 64 in
         if bytes_seen s + 1 \<noteq> bytes_needed s then
           utf8_decode (s\<lparr>lower_boundary := 0x80, upper_boundary := 0xBF,
                          code_point := cp, bytes_seen := bytes_seen s + 1\<rparr>) bs
         else cp # utf8_decode utf8_init bs))"

definition strip_bom :: "nat list \<Rightarrow> nat list" where
  \<comment> \<open>\<^verbatim>\<open>ignoreBOM\<close> is false: a leading U+FEFF is not output\<close>
  "strip_bom cps = (case cps of [] \<Rightarrow> [] | c # cs \<Rightarrow> if c = 0xFEFF then cs else c # cs)"

definition utf16_units :: "nat \<Rightarrow> jsstring" where
  \<comment> \<open>a code point as one code unit or a surrogate pair\<close>
  "utf16_units cp =
     (if cp < 0x10000 then [cp]
      else [0xD800 + (cp - 0x10000) div 0x400, 0xDC00 + (cp - 0x10000) mod 0x400])"

definition TextDecoder_decode :: "byte list \<Rightarrow> jsstring" where
  \<comment> \<open>a fresh decoder, one call without \<^verbatim>\<open>stream: true\<close>: the end of the bytes is the end of the stream\<close>
  "TextDecoder_decode bytes =
     concat (map utf16_units (strip_bom (utf8_decode utf8_init (map unat bytes))))"

subsection \<open>String operations of the source\<close>

fun startsWith :: "jsstring \<Rightarrow> jsstring \<Rightarrow> bool" where
  "startsWith s [] = True"
| "startsWith [] (p # ps) = False"
| "startsWith (c # cs) (p # ps) = (c = p \<and> startsWith cs ps)"

definition slice :: "nat \<Rightarrow> jsstring \<Rightarrow> jsstring" where
  \<comment> \<open>\<^verbatim>\<open>s.slice(n)\<close> for a non-negative \<open>n\<close>\<close>
  "slice n s = drop n s"

fun split_on :: "nat \<Rightarrow> jsstring \<Rightarrow> jsstring list" where
  \<comment> \<open>\<^verbatim>\<open>s.split(sep)\<close> for a one-unit separator: always at least one piece\<close>
  "split_on sep [] = [[]]"
| "split_on sep (c # cs) =
     (if c = sep then [] # split_on sep cs
      else (case split_on sep cs of [] \<Rightarrow> [[c]] | l # ls \<Rightarrow> (c # l) # ls))"

definition is_white_space :: "nat \<Rightarrow> bool" where
  \<comment> \<open>WhiteSpace and LineTerminator of ECMAScript, what \<^verbatim>\<open>trim\<close> removes\<close>
  "is_white_space c =
     ((0x9 \<le> c \<and> c \<le> 0xD) \<or> c = 0x20 \<or> c = 0xA0 \<or> c = 0x1680
      \<or> (0x2000 \<le> c \<and> c \<le> 0x200A) \<or> c = 0x2028 \<or> c = 0x2029 \<or> c = 0x202F
      \<or> c = 0x205F \<or> c = 0x3000 \<or> c = 0xFEFF)"

definition trim :: "jsstring \<Rightarrow> jsstring" where
  "trim s = rev (dropWhile is_white_space (rev (dropWhile is_white_space s)))"

fun digits_of :: "nat \<Rightarrow> jsstring" where
  "digits_of n = (if n < 10 then [48 + n] else digits_of (n div 10) @ [48 + n mod 10])"

declare digits_of.simps [simp del]

definition digits_value :: "jsstring \<Rightarrow> nat" where
  \<comment> \<open>the number a string of decimal digits stands for\<close>
  "digits_value ds = foldl (\<lambda>a d. 10 * a + (d - 48)) 0 ds"

definition toString :: "nat \<Rightarrow> jsstring" where
  \<comment> \<open>\<^verbatim>\<open>Number.prototype.toString\<close> on a non-negative integer below \<open>10^21\<close>\<close>
  "toString n = digits_of n"

section \<open>JSON values and \<^verbatim>\<open>JSON.parse\<close>\<close>

text \<open>
  What \<^verbatim>\<open>JSON.parse\<close> returns. A number is kept as the exact decimal its text
  denotes, \<open>JNumber m e\<close> for \<open>m * 10 ^ e\<close>; the program observes of the double
  only whether it is zero. An object keeps its members in insertion order.
\<close>

datatype jsval =
    JNull
  | JBool bool
  | JNumber int int
  | JString jsstring
  | JArray "jsval list"
  | JObject "(jsstring \<times> jsval) list"

datatype token =
    TLBrace | TRBrace | TLBrack | TRBrack | TColon | TComma
  | TString jsstring | TNumber int int | TTrue | TFalse | TNull

subsection \<open>Tokens\<close>

datatype num_phase = NMinus | NZero | NInt | NDot | NFrac | NE | NESign | NExp

record num_state =
  phase :: num_phase
  negative :: bool
  mantissa :: nat
  frac_digits :: nat
  exp_negative :: bool
  exponent :: nat

definition is_digit :: "nat \<Rightarrow> bool" where
  "is_digit c = (48 \<le> c \<and> c \<le> 57)"

definition num_start :: "num_phase \<Rightarrow> bool \<Rightarrow> nat \<Rightarrow> num_state" where
  "num_start p neg m = \<lparr>phase = p, negative = neg, mantissa = m, frac_digits = 0,
                          exp_negative = False, exponent = 0\<rparr>"

definition num_step :: "num_state \<Rightarrow> nat \<Rightarrow> num_state option" where
  \<comment> \<open>\<open>-? (0 | [1-9][0-9]*) (. [0-9]+)? ([eE] [+-]? [0-9]+)?\<close>, one code unit further\<close>
  "num_step n c =
     (let d = c - 48 in
      case phase n of
        NMinus \<Rightarrow>
          if c = 48 then Some (n\<lparr>phase := NZero\<rparr>)
          else if is_digit c then Some (n\<lparr>phase := NInt, mantissa := d\<rparr>)
          else None
      | NZero \<Rightarrow>
          if c = 46 then Some (n\<lparr>phase := NDot\<rparr>)
          else if c = 101 \<or> c = 69 then Some (n\<lparr>phase := NE\<rparr>)
          else None
      | NInt \<Rightarrow>
          if is_digit c then Some (n\<lparr>mantissa := mantissa n * 10 + d\<rparr>)
          else if c = 46 then Some (n\<lparr>phase := NDot\<rparr>)
          else if c = 101 \<or> c = 69 then Some (n\<lparr>phase := NE\<rparr>)
          else None
      | NDot \<Rightarrow>
          if is_digit c then
            Some (n\<lparr>phase := NFrac, mantissa := mantissa n * 10 + d, frac_digits := 1\<rparr>)
          else None
      | NFrac \<Rightarrow>
          if is_digit c then
            Some (n\<lparr>mantissa := mantissa n * 10 + d, frac_digits := frac_digits n + 1\<rparr>)
          else if c = 101 \<or> c = 69 then Some (n\<lparr>phase := NE\<rparr>)
          else None
      | NE \<Rightarrow>
          if c = 43 then Some (n\<lparr>phase := NESign\<rparr>)
          else if c = 45 then Some (n\<lparr>phase := NESign, exp_negative := True\<rparr>)
          else if is_digit c then Some (n\<lparr>phase := NExp, exponent := d\<rparr>)
          else None
      | NESign \<Rightarrow>
          if is_digit c then Some (n\<lparr>phase := NExp, exponent := d\<rparr>) else None
      | NExp \<Rightarrow>
          if is_digit c then Some (n\<lparr>exponent := exponent n * 10 + d\<rparr>) else None)"

definition num_finish :: "num_state \<Rightarrow> token option" where
  "num_finish n =
     (if phase n \<in> {NZero, NInt, NFrac, NExp} then
        Some (TNumber (if negative n then - int (mantissa n) else int (mantissa n))
                      ((if exp_negative n then - int (exponent n) else int (exponent n))
                         - int (frac_digits n)))
      else None)"

datatype lex_mode =
    LDefault
  | LString jsstring
  | LEscape jsstring
  | LHex jsstring nat nat
  | LNumber num_state
  | LLiteral token jsstring

datatype lex_start = Skip | Emit token | Enter lex_mode | Bad

definition lex_begin :: "nat \<Rightarrow> lex_start" where
  \<comment> \<open>a code unit met between tokens\<close>
  "lex_begin c =
     (if c = 9 \<or> c = 10 \<or> c = 13 \<or> c = 32 then Skip
      else if c = 123 then Emit TLBrace
      else if c = 125 then Emit TRBrace
      else if c = 91 then Emit TLBrack
      else if c = 93 then Emit TRBrack
      else if c = 58 then Emit TColon
      else if c = 44 then Emit TComma
      else if c = 34 then Enter (LString [])
      else if c = 45 then Enter (LNumber (num_start NMinus True 0))
      else if c = 48 then Enter (LNumber (num_start NZero False 0))
      else if is_digit c then Enter (LNumber (num_start NInt False (c - 48)))
      else if c = 116 then Enter (LLiteral TTrue (str ''rue''))
      else if c = 102 then Enter (LLiteral TFalse (str ''alse''))
      else if c = 110 then Enter (LLiteral TNull (str ''ull''))
      else Bad)"

definition hex_value :: "nat \<Rightarrow> nat option" where
  "hex_value c =
     (if is_digit c then Some (c - 48)
      else if 97 \<le> c \<and> c \<le> 102 then Some (c - 87)
      else if 65 \<le> c \<and> c \<le> 70 then Some (c - 55)
      else None)"

definition escape_unit :: "nat \<Rightarrow> nat option" where
  \<comment> \<open>the code unit a single-character escape stands for\<close>
  "escape_unit c =
     (if c = 34 \<or> c = 92 \<or> c = 47 then Some c
      else if c = 98 then Some 8
      else if c = 102 then Some 12
      else if c = 110 then Some 10
      else if c = 114 then Some 13
      else if c = 116 then Some 9
      else None)"

fun emit :: "token \<Rightarrow> token list option \<Rightarrow> token list option" where
  "emit t None = None"
| "emit t (Some ts) = Some (t # ts)"

fun lex :: "lex_mode \<Rightarrow> jsstring \<Rightarrow> token list option" where
  "lex LDefault [] = Some []"
| "lex (LNumber n) [] = (case num_finish n of None \<Rightarrow> None | Some t \<Rightarrow> Some [t])"
| "lex (LString acc) [] = None"
| "lex (LEscape acc) [] = None"
| "lex (LHex acc v k) [] = None"
| "lex (LLiteral t rest) [] = None"
| "lex LDefault (c # cs) =
     (case lex_begin c of
        Skip \<Rightarrow> lex LDefault cs
      | Emit t \<Rightarrow> emit t (lex LDefault cs)
      | Enter m \<Rightarrow> lex m cs
      | Bad \<Rightarrow> None)"
| "lex (LString acc) (c # cs) =
     (if c = 34 then emit (TString acc) (lex LDefault cs)
      else if c = 92 then lex (LEscape acc) cs
      else if c < 32 then None
      else lex (LString (acc @ [c])) cs)"
| "lex (LEscape acc) (c # cs) =
     (if c = 117 then lex (LHex acc 0 0) cs
      else (case escape_unit c of
              None \<Rightarrow> None
            | Some u \<Rightarrow> lex (LString (acc @ [u])) cs))"
| "lex (LHex acc v k) (c # cs) =
     (case hex_value c of
        None \<Rightarrow> None
      | Some h \<Rightarrow>
          if k = 3 then lex (LString (acc @ [v * 16 + h])) cs
          else lex (LHex acc (v * 16 + h) (k + 1)) cs)"
| "lex (LNumber n) (c # cs) =
     (case num_step n c of
        Some n' \<Rightarrow> lex (LNumber n') cs
      | None \<Rightarrow>
          (case num_finish n of
             None \<Rightarrow> None
           | Some t \<Rightarrow>
               (case lex_begin c of
                  Skip \<Rightarrow> emit t (lex LDefault cs)
                | Emit t' \<Rightarrow> emit t (emit t' (lex LDefault cs))
                | Enter m \<Rightarrow> emit t (lex m cs)
                | Bad \<Rightarrow> None)))"
| "lex (LLiteral t rest) (c # cs) =
     (case rest of
        [] \<Rightarrow> None
      | r # rs \<Rightarrow>
          if c \<noteq> r then None
          else if rs = [] then emit t (lex LDefault cs)
          else lex (LLiteral t rs) cs)"

subsection \<open>Values\<close>

fun set_property :: "jsstring \<Rightarrow> jsval \<Rightarrow> (jsstring \<times> jsval) list \<Rightarrow> (jsstring \<times> jsval) list" where
  \<comment> \<open>a repeated name overwrites the member's value\<close>
  "set_property k v [] = [(k, v)]"
| "set_property k v ((k', v') # ms) =
     (if k' = k then (k, v) # ms else (k', v') # set_property k v ms)"

datatype container =
    CArr "jsval list"
  | CObj "(jsstring \<times> jsval) list"
  | CKey "(jsstring \<times> jsval) list" jsstring

datatype parse_mode = PValue | PValueOrEnd | PKeyOrEnd | PKey | PColon | PAfter | PDone jsval

fun deliver :: "jsval \<Rightarrow> container list \<Rightarrow> (parse_mode \<times> container list) option" where
  \<comment> \<open>a finished value goes into the innermost open container\<close>
  "deliver v [] = Some (PDone v, [])"
| "deliver v (CArr vs # st) = Some (PAfter, CArr (vs @ [v]) # st)"
| "deliver v (CKey ms k # st) = Some (PAfter, CObj (set_property k v ms) # st)"
| "deliver v (CObj ms # st) = None"

fun value_token :: "token \<Rightarrow> container list \<Rightarrow> (parse_mode \<times> container list) option" where
  "value_token (TString s) st = deliver (JString s) st"
| "value_token (TNumber m e) st = deliver (JNumber m e) st"
| "value_token TTrue st = deliver (JBool True) st"
| "value_token TFalse st = deliver (JBool False) st"
| "value_token TNull st = deliver JNull st"
| "value_token TLBrack st = Some (PValueOrEnd, CArr [] # st)"
| "value_token TLBrace st = Some (PKeyOrEnd, CObj [] # st)"
| "value_token t st = None"

definition parse_step :: "parse_mode \<Rightarrow> container list \<Rightarrow> token \<Rightarrow> (parse_mode \<times> container list) option" where
  "parse_step m st t =
     (case m of
        PValue \<Rightarrow> value_token t st
      | PValueOrEnd \<Rightarrow>
          (if t = TRBrack then
             (case st of CArr vs # st' \<Rightarrow> deliver (JArray vs) st' | _ \<Rightarrow> None)
           else value_token t st)
      | PKeyOrEnd \<Rightarrow>
          (case st of
             CObj ms # st' \<Rightarrow>
               (case t of
                  TRBrace \<Rightarrow> deliver (JObject ms) st'
                | TString k \<Rightarrow> Some (PColon, CKey ms k # st')
                | _ \<Rightarrow> None)
           | _ \<Rightarrow> None)
      | PKey \<Rightarrow>
          (case st of
             CObj ms # st' \<Rightarrow>
               (case t of TString k \<Rightarrow> Some (PColon, CKey ms k # st') | _ \<Rightarrow> None)
           | _ \<Rightarrow> None)
      | PColon \<Rightarrow> (if t = TColon then Some (PValue, st) else None)
      | PAfter \<Rightarrow>
          (case st of
             CArr vs # st' \<Rightarrow>
               (if t = TComma then Some (PValue, st)
                else if t = TRBrack then deliver (JArray vs) st'
                else None)
           | CObj ms # st' \<Rightarrow>
               (if t = TComma then Some (PKey, st)
                else if t = TRBrace then deliver (JObject ms) st'
                else None)
           | _ \<Rightarrow> None)
      | PDone v \<Rightarrow> None)"

fun parse_tokens :: "parse_mode \<Rightarrow> container list \<Rightarrow> token list \<Rightarrow> jsval option" where
  "parse_tokens m st [] = (case m of PDone v \<Rightarrow> Some v | _ \<Rightarrow> None)"
| "parse_tokens m st (t # ts) =
     (case parse_step m st t of
        None \<Rightarrow> None
      | Some (m', st') \<Rightarrow> parse_tokens m' st' ts)"

definition JSON_parse :: "jsstring \<Rightarrow> jsval option" where
  \<comment> \<open>\<open>None\<close>: \<^verbatim>\<open>JSON.parse\<close> throws a SyntaxError\<close>
  "JSON_parse text = (case lex LDefault text of None \<Rightarrow> None | Some ts \<Rightarrow> parse_tokens PValue [] ts)"

section \<open>Reading a parsed frame\<close>

datatype thrown = SyntaxError | TypeError | Error jsstring

fun get_field :: "jsval \<Rightarrow> jsstring \<Rightarrow> thrown + jsval option" where
  \<comment> \<open>\<^verbatim>\<open>data.name\<close> for the names the source reads (\<^verbatim>\<open>content\<close>, \<^verbatim>\<open>type\<close>, \<^verbatim>\<open>model\<close>,
      \<^verbatim>\<open>response\<close>, \<^verbatim>\<open>error\<close>), none of which a prototype defines: reading from
      \<^verbatim>\<open>null\<close> throws, a missing property is \<^verbatim>\<open>undefined\<close> (\<open>None\<close>)\<close>
  "get_field JNull name = Inl TypeError"
| "get_field (JObject members) name = Inr (map_of members name)"
| "get_field v name = Inr None"

definition number_is_zero :: "int \<Rightarrow> int \<Rightarrow> bool" where
  \<comment> \<open>the double nearest to \<open>m * 10 ^ e\<close> is \<open>0\<close>: the value is at most \<open>2 ^ -1075\<close>,
      half the least positive double\<close>
  "number_is_zero m e = (m = 0 \<or> (e < 0 \<and> \<bar>m\<bar> * 2 ^ 1075 \<le> 10 ^ nat (- e)))"

fun ToBoolean :: "jsval option \<Rightarrow> bool" where
  "ToBoolean None = False"
| "ToBoolean (Some JNull) = False"
| "ToBoolean (Some (JBool b)) = b"
| "ToBoolean (Some (JNumber m e)) = (\<not> number_is_zero m e)"
| "ToBoolean (Some (JString s)) = (s \<noteq> [])"
| "ToBoolean (Some (JArray vs)) = True"
| "ToBoolean (Some (JObject ms)) = True"

section \<open>The conversation (\<^verbatim>\<open>ChatInterface.tsx\<close>)\<close>

datatype sender = User | Assistant

record message =
  id' :: jsstring
  content :: "jsval option"
  sender :: sender
  timestamp :: nat
  model :: "jsval option"

text \<open>
  The component's state hooks, and the calls of \<^verbatim>\<open>console.error\<close> as a trace.
  Every reading of the clock (\<^verbatim>\<open>Date.now()\<close>, \<^verbatim>\<open>new Date()\<close>) is an argument of the
  function that makes it.
\<close>

record state =
  messages :: "message list"
  input :: jsstring
  isLoading :: bool
  useStreaming :: bool
  console :: "(jsstring \<times> thrown) list"

fun findIndex :: "('a \<Rightarrow> bool) \<Rightarrow> 'a list \<Rightarrow> int" where
  "findIndex p [] = - 1"
| "findIndex p (x # xs) =
     (if p x then 0 else (let i = findIndex p xs in if i < 0 then - 1 else i + 1))"

definition update_messages :: "jsstring \<Rightarrow> jsval option \<Rightarrow> jsval option \<Rightarrow> nat \<Rightarrow> message list \<Rightarrow> message list" where
  \<comment> \<open>the updater given to \<^verbatim>\<open>setMessages\<close> for a content frame\<close>
  "update_messages assistantMessageId assistantMessage data_model now prev =
     (let newMessages = prev;
          existingIndex = findIndex (\<lambda>m. id' m = assistantMessageId) newMessages;
          messageObj = \<lparr>id' = assistantMessageId, content = assistantMessage,
                        sender = Assistant, timestamp = now,
                        model = (if ToBoolean data_model then data_model
                                 else Some (JString (str ''gemini-pro'')))\<rparr>
      in if existingIndex \<ge> 0 then newMessages[nat existingIndex := messageObj]
         else newMessages @ [messageObj])"

subsection \<open>The streaming decoder\<close>

text \<open>
  The decoder's own variable \<^verbatim>\<open>assistantMessage\<close> travels with the component state.
  \<open>Break\<close> is the \<^verbatim>\<open>break\<close> of the loop over the lines.
\<close>

type_synonym decoder = "jsval option \<times> state"

datatype flow = Continue | Break

definition log_error :: "jsstring \<Rightarrow> thrown \<Rightarrow> state \<Rightarrow> state" where
  "log_error label e st = st\<lparr>console := console st @ [(label, e)]\<rparr>"

definition process_frame :: "jsstring \<Rightarrow> nat \<Rightarrow> jsval \<Rightarrow> decoder \<Rightarrow> thrown + decoder \<times> flow" where
  \<comment> \<open>the body of the inner \<^verbatim>\<open>try\<close> once \<^verbatim>\<open>JSON.parse\<close> has returned \<open>data\<close>\<close>
  "process_frame assistantMessageId now data d =
     (case get_field data (str ''content'') of
        Inl e \<Rightarrow> Inl e
      | Inr data_content \<Rightarrow>
          if ToBoolean data_content then
            (case get_field data (str ''model'') of
               Inl e \<Rightarrow> Inl e
             | Inr data_model \<Rightarrow>
                 Inr ((data_content,
                       (snd d)\<lparr>messages := update_messages assistantMessageId data_content
                                               data_model now (messages (snd d))\<rparr>),
                      Continue))
          else
            (case get_field data (str ''type'') of
               Inl e \<Rightarrow> Inl e
             | Inr data_type \<Rightarrow>
                 if data_type = Some (JString (str ''end'')) then Inr (d, Break)
                 else Inr (d, Continue)))"

definition process_line :: "jsstring \<Rightarrow> nat \<Rightarrow> jsstring \<Rightarrow> decoder \<Rightarrow> decoder \<times> flow" where
  "process_line assistantMessageId now line d =
     (if startsWith line (str ''data: '') then
        (case (case JSON_parse (slice 6 line) of
                 None \<Rightarrow> Inl SyntaxError
               | Some data \<Rightarrow> process_frame assistantMessageId now data d) of
           Inr r \<Rightarrow> r
         | Inl e \<Rightarrow> ((fst d, log_error (str ''Error parsing stream data:'') e (snd d)), Continue))
      else (d, Continue))"

fun for_lines :: "jsstring \<Rightarrow> nat \<Rightarrow> jsstring list \<Rightarrow> decoder \<Rightarrow> decoder \<times> flow" where
  \<comment> \<open>\<^verbatim>\<open>for (const line of lines)\<close>: the state after the loop, and \<open>Break\<close> when a
      \<^verbatim>\<open>break\<close> left it before the last line\<close>
  "for_lines assistantMessageId now [] d = (d, Continue)"
| "for_lines assistantMessageId now (line # lines) d =
     (case process_line assistantMessageId now line d of
        (d', Break) \<Rightarrow> (d', Break)
      | (d', Continue) \<Rightarrow> for_lines assistantMessageId now lines d')"

text \<open>
  A chunk is what one \<^verbatim>\<open>reader.read()\<close> resolves to with \<^verbatim>\<open>done\<close> false, with the
  clock reading its updates are stamped with. The stream ends when a read resolves
  with \<^verbatim>\<open>done\<close> true, or when a read rejects (the transport failed).
\<close>

type_synonym chunk = "nat \<times> byte list"

datatype ending = Done | Failed jsstring

definition process_chunk :: "jsstring \<Rightarrow> chunk \<Rightarrow> decoder \<Rightarrow> decoder" where
  "process_chunk assistantMessageId c d =
     (let chunk = TextDecoder_decode (snd c);
          lines = split_on 10 chunk
      in fst (for_lines assistantMessageId (fst c) lines d))"

fun read_loop :: "jsstring \<Rightarrow> chunk list \<Rightarrow> ending \<Rightarrow> decoder \<Rightarrow> jsstring option \<times> decoder" where
  \<comment> \<open>\<^verbatim>\<open>while (true)\<close>: the message of the error that leaves the loop, if any, and the
      state reached\<close>
  "read_loop assistantMessageId [] Done d = (None, d)"
| "read_loop assistantMessageId [] (Failed m) d = (Some m, d)"
| "read_loop assistantMessageId (c # cs) e d =
     read_loop assistantMessageId cs e (process_chunk assistantMessageId c d)"

subsection \<open>Responses and the two ways of sending\<close>

text \<open>
  An awaited promise either rejects, with the \<^verbatim>\<open>message\<close> of the error, or resolves.
  A response is what the callers read of it: the status, the body as a stream
  (\<open>None\<close> for a \<^verbatim>\<open>null\<close> body), and what \<^verbatim>\<open>text()\<close> and \<^verbatim>\<open>json()\<close> settle to.
\<close>

datatype 'a promise = Rejects jsstring | Resolves 'a

record response =
  status :: nat
  body :: "(chunk list \<times> ending) option"
  text_of :: "jsstring promise"
  json_of :: "jsval promise"

definition ok :: "response \<Rightarrow> bool" where
  "ok r = (200 \<le> status r \<and> status r \<le> 299)"

definition sendMessageStream :: "nat \<Rightarrow> nat \<Rightarrow> nat \<Rightarrow> response promise \<Rightarrow> state \<Rightarrow> state" where
  \<comment> \<open>\<open>now_id\<close>, \<open>now_err\<close>, \<open>now_ts\<close>: the clock at lines 115, 166 and 169\<close>
  "sendMessageStream now_id now_err now_ts fetched st =
     (let assistantMessageId = toString (now_id + 1);
          tried =
            (case fetched of
               Rejects m \<Rightarrow> (Some m, st)
             | Resolves r \<Rightarrow>
                 if \<not> ok r then (Some (str ''Failed to start stream''), st)
                 else
                   (case body r of
                      None \<Rightarrow> (None, st)
                    | Some (chunks, e) \<Rightarrow>
                        (case read_loop assistantMessageId chunks e (Some (JString []), st) of
                           (x, d) \<Rightarrow> (x, snd d))));
          caught =
            (case tried of
               (Some m, st') \<Rightarrow>
                 (let errorMessage =
                        \<lparr>id' = toString (now_err + 1),
                         content = Some (JString (str ''Streaming error: '' @ m
                                                  @ str ''. Please try again.'')),
                         sender = Assistant, timestamp = now_ts, model = None\<rparr>;
                      st'' = log_error (str ''Error with streaming:'') (Error m) st'
                  in st''\<lparr>messages := messages st'' @ [errorMessage]\<rparr>)
             | (None, st') \<Rightarrow> st')
      in caught\<lparr>isLoading := False\<rparr>)"

text \<open>
  The synchronous path reads two things the engine, not the program, decides: the
  message of the TypeError for a property read from \<^verbatim>\<open>null\<close>, and the text of a
  value given to \<^verbatim>\<open>new Error\<close>. Both are parameters.
\<close>

record engine =
  null_read_message :: "jsstring \<Rightarrow> jsstring"
  ToString :: "jsval \<Rightarrow> jsstring"

definition read_field :: "engine \<Rightarrow> jsval \<Rightarrow> string \<Rightarrow> jsstring + jsval option" where
  \<comment> \<open>a property read whose TypeError carries the engine's message\<close>
  "read_field eng v name =
     (case get_field v (str name) of
        Inl e \<Rightarrow> Inl (null_read_message eng (str name))
      | Inr x \<Rightarrow> Inr x)"

definition sendMessageSync :: "engine \<Rightarrow> nat \<Rightarrow> nat \<Rightarrow> response promise \<Rightarrow> state \<Rightarrow> state" where
  \<comment> \<open>\<open>now_id\<close>, \<open>now_ts\<close>: the clock where the appended message is built\<close>
  "sendMessageSync eng now_id now_ts fetched st =
     (let tried =
            (case fetched of
               Rejects m \<Rightarrow> Inl m
             | Resolves r \<Rightarrow>
                 if \<not> ok r then
                   (case json_of r of
                      Rejects m \<Rightarrow> Inl m
                    | Resolves errorData \<Rightarrow>
                        (case read_field eng errorData ''error'' of
                           Inl m \<Rightarrow> Inl m
                         | Inr e \<Rightarrow>
                             if ToBoolean e then Inl (ToString eng (the e))
                             else Inl (str ''Failed to send message'')))
                 else
                   (case json_of r of
                      Rejects m \<Rightarrow> Inl m
                    | Resolves data \<Rightarrow>
                        (case read_field eng data ''response'' of
                           Inl m \<Rightarrow> Inl m
                         | Inr data_response \<Rightarrow>
                             (case read_field eng data ''model'' of
                                Inl m \<Rightarrow> Inl m
                              | Inr data_model \<Rightarrow>
                                  Inr \<lparr>id' = toString (now_id + 1), content = data_response,
                                       sender = Assistant, timestamp = now_ts,
                                       model = data_model\<rparr>))));
          appended =
            (case tried of
               Inr assistantMessage \<Rightarrow> st\<lparr>messages := messages st @ [assistantMessage]\<rparr>
             | Inl m \<Rightarrow>
                 (let errorMessage =
                        \<lparr>id' = toString (now_id + 1),
                         content = Some (JString (str ''Sorry, I encountered an error: '' @ m
                                                  @ str ''. Please try again.'')),
                         sender = Assistant, timestamp = now_ts, model = None\<rparr>;
                      st' = log_error (str ''Error sending message:'') (Error m) st
                  in st'\<lparr>messages := messages st' @ [errorMessage]\<rparr>))
      in appended\<lparr>isLoading := False\<rparr>)"

datatype request = StreamRequest jsstring | SyncRequest jsstring

definition sendMessage :: "nat \<Rightarrow> nat \<Rightarrow> state \<Rightarrow> state \<times> request option" where
  \<comment> \<open>up to the first \<^verbatim>\<open>await\<close>: the state after the synchronous part, and the request
      issued (\<open>None\<close> when the guard returns); \<open>now_id\<close>, \<open>now_ts\<close>: the clock at lines 34, 37\<close>
  "sendMessage now_id now_ts st =
     (if trim (input st) = [] \<or> isLoading st then (st, None)
      else
        (let userMessage = \<lparr>id' = toString now_id, content = Some (JString (trim (input st))),
                             sender = User, timestamp = now_ts, model = None\<rparr>;
             currentInput = input st;
             st' = st\<lparr>messages := messages st @ [userMessage], input := [], isLoading := True\<rparr>
         in (st', Some (if useStreaming st then StreamRequest currentInput
                        else SyncRequest currentInput))))"

definition clearChat :: "state \<Rightarrow> state" where
  "clearChat st = st\<lparr>messages := []\<rparr>"

definition initial :: state where
  \<comment> \<open>the arguments of the four \<^verbatim>\<open>useState\<close> calls\<close>
  "initial = \<lparr>messages = [], input = [], isLoading = False, useStreaming = True, console = []\<rparr>"

text \<open>
  What the conversation shows for the streamed turn. The list renders
  \<^verbatim>\<open>{message.content}\<close> for every message: a stored string is shown as it is. Any
  other stored value is not shown as its value (a number in the engine's digits,
  \<^verbatim>\<open>null\<close> and booleans as nothing, and an object makes React throw, which unmounts
  the component), so a text is given only for a conversation whose contents are all
  strings: \<open>Some s\<close> when the message that carries the turn's id (the one
  \<^verbatim>\<open>findIndex\<close> finds) shows \<open>s\<close>, \<open>None\<close> otherwise.
\<close>

definition text_of_content :: "jsval option \<Rightarrow> jsstring option" where
  "text_of_content c = (case c of Some (JString s) \<Rightarrow> Some s | _ \<Rightarrow> None)"

definition all_text :: "message list \<Rightarrow> bool" where
  "all_text ms = list_all (\<lambda>m. text_of_content (content m) \<noteq> None) ms"

definition displayed_content :: "jsstring \<Rightarrow> message list \<Rightarrow> jsstring option" where
  "displayed_content assistantMessageId ms =
     (if all_text ms then
        (case find (\<lambda>m. id' m = assistantMessageId) ms of
           None \<Rightarrow> None
         | Some m \<Rightarrow> text_of_content (content m))
      else None)"

definition frame_content :: "jsstring \<Rightarrow> jsval option" where
  \<comment> \<open>the \<^verbatim>\<open>content\<close> a line publishes: that of the frame of a \<^verbatim>\<open>data: \<close> line which
      parses and whose \<^verbatim>\<open>content\<close> is truthy\<close>
  "frame_content line =
     (if startsWith line (str ''data: '') then
        (case JSON_parse (slice 6 line) of
           None \<Rightarrow> None
         | Some data \<Rightarrow>
             (case get_field data (str ''content'') of
                Inl e \<Rightarrow> None
              | Inr c \<Rightarrow> if ToBoolean c then c else None))
      else None)"

definition frame_text :: "jsstring \<Rightarrow> jsstring option" where
  \<comment> \<open>the \<^verbatim>\<open>content\<close> a line publishes, when it is a string (then a non-empty one)\<close>
  "frame_text line = text_of_content (frame_content line)"

subsection \<open>One send at a time\<close>

text \<open>
  The component as a transition system: what the user and the network can do to it.
  \<open>in_flight\<close> holds the requests issued and not yet settled. \<open>Settle\<close> is the
  awaited request of the oldest one settling, after which its continuation runs to
  the end; it carries the clock readings and the engine that continuation uses.
\<close>

datatype event =
    Submit nat nat
  | Settle engine nat nat nat "response promise"
  | SetInput jsstring
  | SetUseStreaming bool
  | ClearChat

record system =
  ui :: state
  in_flight :: "request list"

fun step :: "system \<Rightarrow> event \<Rightarrow> system" where
  "step s (Submit now_id now_ts) =
     (case sendMessage now_id now_ts (ui s) of
        (st', None) \<Rightarrow> s\<lparr>ui := st'\<rparr>
      | (st', Some r) \<Rightarrow> s\<lparr>ui := st', in_flight := in_flight s @ [r]\<rparr>)"
| "step s (Settle eng now_id now_err now_ts fetched) =
     (case in_flight s of
        [] \<Rightarrow> s
      | StreamRequest m # rest \<Rightarrow>
          \<lparr>ui = sendMessageStream now_id now_err now_ts fetched (ui s), in_flight = rest\<rparr>
      | SyncRequest m # rest \<Rightarrow>
          \<lparr>ui = sendMessageSync eng now_id now_ts fetched (ui s), in_flight = rest\<rparr>)"
| "step s (SetInput v) = s\<lparr>ui := (ui s)\<lparr>input := v\<rparr>\<rparr>"
| "step s (SetUseStreaming b) = s\<lparr>ui := (ui s)\<lparr>useStreaming := b\<rparr>\<rparr>"
| "step s ClearChat = s\<lparr>ui := clearChat (ui s)\<rparr>"

definition start :: system where
  "start = \<lparr>ui = initial, in_flight = []\<rparr>"

definition run :: "event list \<Rightarrow> system" where
  "run events = foldl step start events"

text \<open>
  The readings of \<^verbatim>\<open>Date.now()\<close> along a run, from which the ids are made: a
  submission makes the id of the user's message from its reading, a settled send
  makes ids from its two readings plus one. \<open>clock b events\<close> checks that the clock
  advances, that is, that no reading is below a number an id was made from before it
  (\<open>b\<close> at the start), and gives the largest such number at the end of the run.
\<close>

fun clock :: "nat \<Rightarrow> event list \<Rightarrow> nat option" where
  "clock b [] = Some b"
| "clock b (Submit now_id now_ts # es) = (if b \<le> now_id then clock now_id es else None)"
| "clock b (Settle eng now_id now_err now_ts fetched # es) =
     (if b \<le> now_id \<and> now_id \<le> now_err then clock (now_err + 1) es else None)"
| "clock b (SetInput v # es) = clock b es"
| "clock b (SetUseStreaming u # es) = clock b es"
| "clock b (ClearChat # es) = clock b es"

definition ids_upto :: "nat \<Rightarrow> message list \<Rightarrow> bool" where
  \<comment> \<open>every id was made from a number up to \<open>b\<close>\<close>
  "ids_upto b ms = (\<forall>m \<in> set ms. \<exists>k\<le>b. id' m = toString k)"

section \<open>The transport proxy (\<^verbatim>\<open>api/chat/route.ts\<close>, \<^verbatim>\<open>api/chat/stream/route.ts\<close>)\<close>

subsection \<open>\<^verbatim>\<open>JSON.stringify\<close> of a parsed value\<close>







subsection \<open>The handlers\<close>








section \<open>Characters and literals for stating the properties\<close>




definition bytes_of :: "string \<Rightarrow> byte list" where
  "bytes_of s = map (\<lambda>c. of_nat (of_char c)) s"

definition is_ascii :: "string \<Rightarrow> bool" where
  "is_ascii s = list_all (\<lambda>c. of_char c < (128 :: nat)) s"

section \<open>Properties of the streaming decoder\<close>

subsection \<open>Decoding ASCII, and the two loops\<close>

lemma unat_byte_of_char: "unat (of_nat (of_char c) :: byte) = of_char c"
proof -
  have "(of_char c :: nat) < 256"
    by (metis of_char_mod_256 mod_less_divisor zero_less_numeral)
  then show ?thesis by (simp add: unat_of_nat)
qed

lemma unat_bytes_of: "map unat (bytes_of s) = str s"
  by (simp add: bytes_of_def str_def unat_byte_of_char)

lemma utf8_decode_ascii:
  "is_ascii s \<Longrightarrow> utf8_decode utf8_init (str s @ ns) = str s @ utf8_decode utf8_init ns"
proof (induction s)
  case Nil
  then show ?case by (simp add: str_def)
next
  case (Cons c s)
  then have c: "(of_char c :: nat) < 128" and s: "is_ascii s"
    by (simp_all add: is_ascii_def)
  have lead: "utf8_lead (of_char c) = ([of_char c], utf8_init)"
    using c by (simp add: utf8_lead_def)
  have init: "bytes_needed utf8_init = 0" by (simp add: utf8_init_def)
  have "utf8_decode utf8_init (str (c # s) @ ns) = of_char c # utf8_decode utf8_init (str s @ ns)"
    using lead init by (simp add: str_def)
  then show ?case
    using Cons.IH [OF s] by (simp add: str_def)
qed

lemma units_ascii: "is_ascii s \<Longrightarrow> concat (map utf16_units (str s)) = str s"
  by (induction s) (simp_all add: is_ascii_def str_def utf16_units_def)

lemma strip_bom_ascii:
  assumes "is_ascii s" and "s \<noteq> []"
  shows "strip_bom (str s @ xs) = str s @ xs"
proof -
  obtain c t where s: "s = c # t" using assms(2) by (cases s) auto
  have "(of_char c :: nat) < 128" using assms(1) s by (simp add: is_ascii_def)
  then show ?thesis
    using s by (simp add: strip_bom_def str_def)
qed

lemma TextDecoder_decode_ascii:
  assumes "is_ascii s" and "s \<noteq> []"
  shows "TextDecoder_decode (bytes_of s @ bs)
           = str s @ concat (map utf16_units (utf8_decode utf8_init (map unat bs)))"
  unfolding TextDecoder_decode_def map_append unat_bytes_of
    utf8_decode_ascii [OF assms(1)] strip_bom_ascii [OF assms]
  using assms(1) by (simp add: units_ascii)

lemma TextDecoder_decode_ascii_only:
  assumes "is_ascii s"
  shows "TextDecoder_decode (bytes_of s) = str s"
proof (cases "s = []")
  case True
  then show ?thesis
    by (simp add: TextDecoder_decode_def bytes_of_def str_def strip_bom_def utf8_init_def)
next
  case False
  from TextDecoder_decode_ascii [OF assms False, of "[]"] show ?thesis
    by (simp add: utf8_init_def)
qed

lemma for_lines_append:
  "for_lines aid now pre d = (d1, Continue) \<Longrightarrow>
   for_lines aid now (pre @ post) d = for_lines aid now post d1"
proof (induction pre arbitrary: d)
  case Nil
  then show ?case by simp
next
  case (Cons l ls)
  obtain d' f where pl: "process_line aid now l d = (d', f)"
    by (cases "process_line aid now l d")
  show ?case
  proof (cases f)
    case Continue
    with Cons pl show ?thesis by simp
  next
    case Break
    with Cons.prems pl show ?thesis by simp
  qed
qed

lemma read_loop_failed:
  "read_loop aid chunks (Failed m) d = (Some m, snd (read_loop aid chunks Done d))"
  by (induction chunks arbitrary: d) simp_all

lemma process_chunk_ascii:
  "is_ascii s \<Longrightarrow>
   process_chunk aid (now, bytes_of s) d = fst (for_lines aid now (split_on 10 (str s)) d)"
  by (simp add: process_chunk_def TextDecoder_decode_ascii_only)

subsection \<open>The updater and single lines\<close>

lemma findIndex_ge: "findIndex p xs \<ge> - 1"
  by (induction xs) (auto simp: Let_def)

lemma findIndex_none: "findIndex p xs < 0 \<longleftrightarrow> (\<forall>x \<in> set xs. \<not> p x)"
  using findIndex_ge [of p]
  by (induction xs) (auto simp: Let_def)

lemma findIndex_last:
  "\<forall>x \<in> set xs. \<not> p x \<Longrightarrow> p y \<Longrightarrow> findIndex p (xs @ [y]) = int (length xs)"
  by (induction xs) (auto simp: Let_def)

lemma find_update_at_findIndex:
  "0 \<le> findIndex p xs \<Longrightarrow> p y \<Longrightarrow> find p (xs[nat (findIndex p xs) := y]) = Some y"
proof (induction xs)
  case Nil
  then show ?case by simp
next
  case (Cons x xs)
  show ?case
  proof (cases "p x")
    case True
    with Cons.prems show ?thesis by simp
  next
    case False
    then have "0 \<le> findIndex p xs"
      using Cons.prems(1) by (simp add: Let_def split: if_splits)
    with Cons.IH Cons.prems(2) False show ?thesis
      by (simp add: Let_def nat_add_distrib findIndex_none)
  qed
qed

lemma find_append_new:
  "findIndex p xs < 0 \<Longrightarrow> p y \<Longrightarrow> find p (xs @ [y]) = Some y"
  by (induction xs) (auto simp: Let_def split: if_splits)

lemma find_after_update:
  "find (\<lambda>m. id' m = aid) (update_messages aid c mdl now prev)
     = Some \<lparr>id' = aid, content = c, sender = Assistant, timestamp = now,
              model = (if ToBoolean mdl then mdl else Some (JString (str ''gemini-pro'')))\<rparr>"
proof (cases "0 \<le> findIndex (\<lambda>m. id' m = aid) prev")
  case True
  then show ?thesis
    by (simp add: update_messages_def Let_def find_update_at_findIndex)
next
  case False
  then show ?thesis
    by (simp add: update_messages_def Let_def find_append_new)
qed

lemma all_text_after_update:
  assumes "all_text prev"
  shows "all_text (update_messages aid (Some (JString s)) mdl now prev)"
proof -
  let ?obj = "\<lparr>id' = aid, content = Some (JString s), sender = Assistant, timestamp = now,
               model = (if ToBoolean mdl then mdl else Some (JString (str ''gemini-pro'')))\<rparr>"
  have "set (update_messages aid (Some (JString s)) mdl now prev) \<subseteq> insert ?obj (set prev)"
    using set_update_subset_insert [of prev _ ?obj]
    by (auto simp: update_messages_def Let_def)
  moreover have "text_of_content (content ?obj) \<noteq> None"
    by (simp add: text_of_content_def)
  ultimately show ?thesis
    using assms unfolding all_text_def list_all_iff by blast
qed

lemma displayed_after_update:
  assumes "all_text prev"
  shows "displayed_content aid (update_messages aid (Some (JString s)) mdl now prev) = Some s"
  using all_text_after_update [OF assms, of aid s mdl now]
  by (simp add: displayed_content_def find_after_update text_of_content_def)

lemma update_messages_fresh:
  assumes "\<forall>m \<in> set prev. id' m \<noteq> aid"
  shows "update_messages aid c mdl now prev
           = prev @ [\<lparr>id' = aid, content = c, sender = Assistant, timestamp = now,
                       model = (if ToBoolean mdl then mdl
                                else Some (JString (str ''gemini-pro'')))\<rparr>]"
proof -
  have "findIndex (\<lambda>m. id' m = aid) prev < 0"
    using assms by (simp add: findIndex_none)
  then show ?thesis by (simp add: update_messages_def Let_def)
qed

lemma update_messages_last:
  assumes "\<forall>m \<in> set prev. id' m \<noteq> aid" and "id' old = aid"
  shows "update_messages aid c mdl now (prev @ [old])
           = prev @ [\<lparr>id' = aid, content = c, sender = Assistant, timestamp = now,
                       model = (if ToBoolean mdl then mdl
                                else Some (JString (str ''gemini-pro'')))\<rparr>]"
proof -
  have "findIndex (\<lambda>m. id' m = aid) (prev @ [old]) = int (length prev)"
    using assms by (simp add: findIndex_last)
  then show ?thesis by (simp add: update_messages_def Let_def)
qed

lemma process_line_content:
  assumes "startsWith line (str ''data: '')"
      and "JSON_parse (slice 6 line) = Some data"
      and "get_field data (str ''content'') = Inr c" and "ToBoolean c"
      and "get_field data (str ''model'') = Inr mdl"
  shows "process_line aid now line d
           = ((c, (snd d)\<lparr>messages := update_messages aid c mdl now (messages (snd d))\<rparr>),
              Continue)"
  using assms by (simp add: process_line_def process_frame_def)

lemma process_line_end:
  assumes "startsWith line (str ''data: '')"
      and "JSON_parse (slice 6 line) = Some data"
      and "get_field data (str ''content'') = Inr c" and "\<not> ToBoolean c"
      and "get_field data (str ''type'') = Inr (Some (JString (str ''end'')))"
  shows "process_line aid now line d = (d, Break)"
  using assms by (simp add: process_line_def process_frame_def)

lemma frame_content_line:
  assumes "frame_content line = Some v"
  shows "\<exists>mdl. process_line aid now line d
           = ((Some v, (snd d)\<lparr>messages := update_messages aid (Some v) mdl now
                                              (messages (snd d))\<rparr>), Continue)"
proof -
  from assms obtain data c where
    sw: "startsWith line (str ''data: '')" and
    p: "JSON_parse (slice 6 line) = Some data" and
    c: "get_field data (str ''content'') = Inr c" and t: "ToBoolean c" and v: "c = Some v"
    by (auto simp: frame_content_def split: if_splits option.splits sum.splits)
  obtain mdl where "get_field data (str ''model'') = Inr mdl"
    using c by (cases data) auto
  from process_line_content [OF sw p c t this] v show ?thesis by blast
qed

lemma process_line_other:
  "\<not> startsWith line (str ''data: '') \<Longrightarrow> process_line aid now line d = (d, Continue)"
  by (simp add: process_line_def)

lemma frame_text_line:
  assumes "frame_text line = Some s"
  shows "\<exists>mdl. process_line aid now line d
           = ((Some (JString s),
               (snd d)\<lparr>messages := update_messages aid (Some (JString s)) mdl now
                                       (messages (snd d))\<rparr>), Continue)"
proof -
  have "frame_content line = Some (JString s)"
    using assms
    by (auto simp: frame_text_def text_of_content_def split: option.splits jsval.splits)
  then show ?thesis by (rule frame_content_line)
qed

lemma text_lines:
  assumes "\<forall>l \<in> set lines. frame_text l \<noteq> None \<or> \<not> startsWith l (str ''data: '')"
      and "all_text (messages (snd d))"
  shows "snd (for_lines aid now lines d) = Continue
       \<and> all_text (messages (snd (fst (for_lines aid now lines d))))"
  using assms
proof (induction lines arbitrary: d)
  case Nil
  then show ?case by simp
next
  case (Cons l ls)
  show ?case
  proof (cases "frame_text l")
    case None
    with Cons.prems have "\<not> startsWith l (str ''data: '')" by simp
    then have "process_line aid now l d = (d, Continue)"
      by (rule process_line_other)
    with Cons show ?thesis by simp
  next
    case (Some s)
    from frame_text_line [OF this, of aid now d] obtain mdl where
      pl: "process_line aid now l d
        = ((Some (JString s),
            (snd d)\<lparr>messages := update_messages aid (Some (JString s)) mdl now
                                    (messages (snd d))\<rparr>), Continue)"
      by blast
    have "all_text (update_messages aid (Some (JString s)) mdl now (messages (snd d)))"
      using Cons.prems(2) by (rule all_text_after_update)
    with Cons.IH [of "(Some (JString s),
            (snd d)\<lparr>messages := update_messages aid (Some (JString s)) mdl now
                                    (messages (snd d))\<rparr>)"] Cons.prems(1) pl
    show ?thesis by simp
  qed
qed

lemma empty_line: "\<not> startsWith [] (str ''data: '')"
  by code_simp

text \<open>
  C8. A line of a chunk that does not begin with the literal prefix \<^verbatim>\<open>data: \<close> leaves
  the decoder's variable and the whole component state, the message list included,
  as they were, and the loop over the lines goes on.
\<close>

theorem non_data_line_ignored:
  "\<not> startsWith line (str ''data: '') \<Longrightarrow>
   process_line assistantMessageId now line d = (d, Continue)"
  by (simp add: process_line_def)

theorem non_data_line_ignored_witness:
  "\<not> startsWith (str '': ping'') (str ''data: '') \<and>
   process_line (str ''17'') 5 (str '': ping'') (Some (JString []), initial)
     = ((Some (JString []), initial), Continue)"
proof -
  have h: "\<not> startsWith (str '': ping'') (str ''data: '')"
    by code_simp
  show ?thesis
    using h non_data_line_ignored [OF h] by simp
qed



text \<open>
  C10. A frame that parses and whose \<^verbatim>\<open>content\<close> is the empty string is treated as one
  without \<^verbatim>\<open>content\<close>: its line leaves the decoder's variable and the component state,
  the message list included, as they were, and creates no message. (Such a frame
  still ends the loop over the lines when its \<^verbatim>\<open>type\<close> is \<^verbatim>\<open>"end"\<close>.)
\<close>

theorem empty_content_publishes_nothing:
  assumes "startsWith line (str ''data: '')"
      and "JSON_parse (slice 6 line) = Some data"
      and "get_field data (str ''content'') = Inr c"
      and "c = Some (JString []) \<or> c = None"
  shows "process_line aid now line d
           = (d, if get_field data (str ''type'') = Inr (Some (JString (str ''end'')))
                 then Break else Continue)"
proof -
  have "\<not> ToBoolean c" using assms(4) by auto
  moreover obtain t where "get_field data (str ''type'') = Inr t"
    using assms(3) by (cases data) auto
  ultimately show ?thesis
    using assms(1,2,3) by (simp add: process_line_def process_frame_def)
qed

theorem empty_content_publishes_nothing_witness:
  "startsWith (str ''data: {\"content\":\"\"}'') (str ''data: '')
   \<and> JSON_parse (slice 6 (str ''data: {\"content\":\"\"}''))
       = Some (JObject [(str ''content'', JString [])])
   \<and> get_field (JObject [(str ''content'', JString [])]) (str ''content'') = Inr (Some (JString []))
   \<and> process_line (str ''17'') 5 (str ''data: {\"content\":\"\"}'') (Some (JString []), initial)
       = ((Some (JString []), initial), Continue)"
proof -
  have h1: "startsWith (str ''data: {\"content\":\"\"}'') (str ''data: '')"
    by code_simp
  have h2: "JSON_parse (slice 6 (str ''data: {\"content\":\"\"}''))
       = Some (JObject [(str ''content'', JString [])])"
    by code_simp
  have h3: "get_field (JObject [(str ''content'', JString [])]) (str ''content'')
       = Inr (Some (JString []))"
    by simp
  have h4: "Some (JString []) = Some (JString []) \<or> Some (JString []) = None"
    by simp
  have no_end: "get_field (JObject [(str ''content'', JString [])]) (str ''type'')
       \<noteq> Inr (Some (JString (str ''end'')))"
    by code_simp
  from empty_content_publishes_nothing [OF h1 h2 h3 h4, of "str ''17''" 5 "(Some (JString []), initial)"]
  have "process_line (str ''17'') 5 (str ''data: {\"content\":\"\"}'') (Some (JString []), initial)
       = ((Some (JString []), initial), Continue)"
    using no_end by simp
  with h1 h2 h3 show ?thesis by simp
qed

text \<open>
  C6. When a read of the stream rejects after some chunks, the loop is left, and the
  conversation is the one those chunks had published, with exactly one message
  appended: sender \<open>Assistant\<close>, content built from the error's message. Nothing
  published is taken back.
\<close>

theorem transport_failure_appends_one_error:
  assumes "ok r" and "body r = Some (chunks, Failed m)"
  shows "sendMessageStream now_id now_err now_ts (Resolves r) st =
     (let published = snd (snd (read_loop (toString (now_id + 1)) chunks Done
                                  (Some (JString []), st)))
      in published\<lparr>messages := messages published @
            [\<lparr>id' = toString (now_err + 1),
              content = Some (JString (str ''Streaming error: '' @ m
                                       @ str ''. Please try again.'')),
              sender = Assistant, timestamp = now_ts, model = None\<rparr>],
          console := console published @ [(str ''Error with streaming:'', Error m)],
          isLoading := False\<rparr>)"
  using assms by (simp add: sendMessageStream_def read_loop_failed log_error_def Let_def)

theorem transport_failure_appends_one_error_witness:
  "ok \<lparr>status = 200,
       body = Some ([(5, bytes_of ''data: {\"content\":\"Hel\"}\<newline>'')], Failed (str ''network error'')),
       text_of = Rejects [], json_of = Rejects []\<rparr>
   \<and> sendMessageStream 16 20 21
        (Resolves \<lparr>status = 200,
           body = Some ([(5, bytes_of ''data: {\"content\":\"Hel\"}\<newline>'')], Failed (str ''network error'')),
           text_of = Rejects [], json_of = Rejects []\<rparr>)
        \<lparr>messages = [], input = [], isLoading = True, useStreaming = True, console = []\<rparr>
       = \<lparr>messages =
            [\<lparr>id' = str ''17'', content = Some (JString (str ''Hel'')), sender = Assistant,
              timestamp = 5, model = Some (JString (str ''gemini-pro''))\<rparr>,
             \<lparr>id' = str ''21'',
              content = Some (JString (str ''Streaming error: network error. Please try again.'')),
              sender = Assistant, timestamp = 21, model = None\<rparr>],
          input = [], isLoading = False, useStreaming = True,
          console = [(str ''Error with streaming:'', Error (str ''network error''))]\<rparr>"
proof -
  let ?r = "\<lparr>status = 200,
       body = Some ([(5 :: nat, bytes_of ''data: {\"content\":\"Hel\"}\<newline>'')], Failed (str ''network error'')),
       text_of = Rejects [], json_of = Rejects []\<rparr>"
  have h1: "ok ?r"
    by (simp add: ok_def)
  have h2: "body ?r = Some ([(5, bytes_of ''data: {\"content\":\"Hel\"}\<newline>'')], Failed (str ''network error''))"
    by simp
  have ascii: "is_ascii ''data: {\"content\":\"Hel\"}\<newline>''"
    by code_simp
  have lines: "fst (for_lines (toString 17) 5
                 (split_on 10 (str ''data: {\"content\":\"Hel\"}\<newline>''))
                 (Some (JString []), \<lparr>messages = [], input = [], isLoading = True, useStreaming = True, console = []\<rparr>))
       = (Some (JString (str ''Hel'')),
          \<lparr>messages =
            [\<lparr>id' = str ''17'', content = Some (JString (str ''Hel'')), sender = Assistant,
              timestamp = 5, model = Some (JString (str ''gemini-pro''))\<rparr>],
           input = [], isLoading = True, useStreaming = True, console = []\<rparr>)"
    by code_simp
  have ids: "toString 21 = str ''21''"
    by code_simp
  have msg: "str ''Streaming error: '' @ str ''network error'' @ str ''. Please try again.''
       = str ''Streaming error: network error. Please try again.''"
    by code_simp
  show ?thesis
    using h1 transport_failure_appends_one_error [OF h1 h2, of 16 20 21 "\<lparr>messages = [], input = [], isLoading = True, useStreaming = True, console = []\<rparr>"]
    by (simp add: process_chunk_ascii [OF ascii] lines ids msg Let_def)
qed


text \<open>
  C2, as amended. From a conversation that holds only text, in a run of lines each of
  which either carries a frame whose \<^verbatim>\<open>content\<close> is a non-empty string or is no
  \<^verbatim>\<open>data: \<close> line at all, once the frame of line \<open>i\<close> has been processed the message
  shown for the turn has exactly that frame's \<^verbatim>\<open>content\<close>, whatever was shown
  before: the content is replaced, not appended to.
\<close>

theorem content_replaced_by_each_frame:
  assumes "\<forall>l \<in> set lines. frame_text l \<noteq> None \<or> \<not> startsWith l (str ''data: '')"
      and "i < length lines" and "frame_text (lines ! i) \<noteq> None"
      and "all_text (messages (snd d))"
  shows "displayed_content aid
           (messages (snd (fst (for_lines aid now (take (Suc i) lines) d))))
         = frame_text (lines ! i)"
proof -
  have "\<forall>l \<in> set (take i lines). frame_text l \<noteq> None \<or> \<not> startsWith l (str ''data: '')"
    using assms(1) by (meson in_set_takeD)
  from text_lines [OF this assms(4), of aid now] obtain d1
    where pre: "for_lines aid now (take i lines) d = (d1, Continue)"
      and shown: "all_text (messages (snd d1))"
    by (cases "for_lines aid now (take i lines) d") auto
  obtain s where s: "frame_text (lines ! i) = Some s"
    using assms(3) by auto
  from frame_text_line [OF s, of aid now d1] obtain mdl where
    "process_line aid now (lines ! i) d1
       = ((Some (JString s),
           (snd d1)\<lparr>messages := update_messages aid (Some (JString s)) mdl now
                                    (messages (snd d1))\<rparr>), Continue)"
    by blast
  then have "for_lines aid now (take i lines @ [lines ! i]) d
       = ((Some (JString s),
           (snd d1)\<lparr>messages := update_messages aid (Some (JString s)) mdl now
                                    (messages (snd d1))\<rparr>), Continue)"
    using for_lines_append [OF pre, of "[lines ! i]"] by simp
  then show ?thesis
    using assms(2) s by (simp add: take_Suc_conv_app_nth displayed_after_update [OF shown])
qed

theorem content_replaced_by_each_frame_witness:
  "list_all (\<lambda>l. frame_text l \<noteq> None \<or> \<not> startsWith l (str ''data: ''))
     [str ''data: {\"content\":\"Hel\"}'', [], str ''data: {\"content\":\"Hello\"}'']
   \<and> 2 < length [str ''data: {\"content\":\"Hel\"}'', [], str ''data: {\"content\":\"Hello\"}'']
   \<and> frame_text ([str ''data: {\"content\":\"Hel\"}'', [],
                    str ''data: {\"content\":\"Hello\"}''] ! 2)
       = Some (str ''Hello'')
   \<and> all_text (messages (snd (Some (JString []),
         \<lparr>messages = [\<lparr>id' = str ''16'', content = Some (JString (str ''hi'')),
                        sender = User, timestamp = 0, model = None\<rparr>],
           input = [], isLoading = True, useStreaming = True, console = []\<rparr>)))
   \<and> displayed_content (str ''17'')
         (messages (snd (fst (for_lines (str ''17'') 5
            (take (Suc 2) [str ''data: {\"content\":\"Hel\"}'', [],
                           str ''data: {\"content\":\"Hello\"}''])
            (Some (JString []),
             \<lparr>messages = [\<lparr>id' = str ''16'', content = Some (JString (str ''hi'')),
                            sender = User, timestamp = 0, model = None\<rparr>],
               input = [], isLoading = True, useStreaming = True, console = []\<rparr>)))))
       = Some (str ''Hello'')"
proof -
  let ?lines = "[str ''data: {\"content\":\"Hel\"}'', [], str ''data: {\"content\":\"Hello\"}'']"
  let ?d = "(Some (JString []),
             \<lparr>messages = [\<lparr>id' = str ''16'', content = Some (JString (str ''hi'')),
                            sender = User, timestamp = 0, model = None\<rparr>],
               input = [], isLoading = True, useStreaming = True, console = []\<rparr>)"
  have h1: "\<forall>l \<in> set ?lines. frame_text l \<noteq> None \<or> \<not> startsWith l (str ''data: '')"
    by code_simp
  have h2: "2 < length ?lines"
    by simp
  have v: "frame_text (?lines ! 2) = Some (str ''Hello'')"
    by code_simp
  then have h3: "frame_text (?lines ! 2) \<noteq> None"
    by simp
  have h4: "all_text (messages (snd ?d))"
    by (simp add: all_text_def text_of_content_def)
  from content_replaced_by_each_frame [OF h1 h2 h3 h4, of "str ''17''" 5]
  have "displayed_content (str ''17'')
         (messages (snd (fst (for_lines (str ''17'') 5 (take (Suc 2) ?lines) ?d))))
       = Some (str ''Hello'')"
    unfolding v .
  with h1 h2 v h4 show ?thesis by (simp add: list_all_iff)
qed

text \<open>
  As the claim has it, for every frame with a \<^verbatim>\<open>content\<close> field, it fails for the empty
  string: after \<^verbatim>\<open>{"content":"Hello"}\<close> and then \<^verbatim>\<open>{"content":""}\<close> the message still
  shows \<^verbatim>\<open>Hello\<close>, not the content of the second frame.
\<close>

theorem empty_content_not_displayed:
  "JSON_parse (slice 6 (str ''data: {\"content\":\"\"}''))
     = Some (JObject [(str ''content'', JString [])])
   \<and> get_field (JObject [(str ''content'', JString [])]) (str ''content'')
     = Inr (Some (JString []))
   \<and> displayed_content (str ''17'')
         (messages (snd (fst (for_lines (str ''17'') 5
            [str ''data: {\"content\":\"Hello\"}'', str ''data: {\"content\":\"\"}'']
            (Some (JString []), initial)))))
     = Some (str ''Hello'')
   \<and> displayed_content (str ''17'')
         (messages (snd (fst (for_lines (str ''17'') 5
            [str ''data: {\"content\":\"Hello\"}'', str ''data: {\"content\":\"\"}'']
            (Some (JString []), initial)))))
     \<noteq> Some []"
  by code_simp


lemma digits_value_digits_of: "digits_value (digits_of n) = n"
proof (induction n rule: digits_of.induct)
  case (1 n)
  show ?case
  proof (cases "n < 10")
    case True
    then show ?thesis
      by (subst digits_of.simps) (simp add: digits_value_def)
  next
    case False
    with 1 have "digits_value (digits_of (n div 10)) = n div 10" by simp
    with False show ?thesis
      by (subst digits_of.simps) (simp add: digits_value_def)
  qed
qed

lemma toString_inj: "toString n = toString m \<Longrightarrow> n = m"
  by (metis digits_value_digits_of toString_def)

lemma ids_upto_mono: "ids_upto b ms \<Longrightarrow> b \<le> b' \<Longrightarrow> ids_upto b' ms"
  unfolding ids_upto_def by (meson le_trans)

lemma ids_upto_fresh:
  assumes "ids_upto b ms" and "b < n"
  shows "\<forall>m \<in> set ms. id' m \<noteq> toString n"
proof
  fix m assume "m \<in> set ms"
  with assms(1) obtain k where "k \<le> b" "id' m = toString k"
    unfolding ids_upto_def by blast
  with assms(2) show "id' m \<noteq> toString n"
    using toString_inj [of k n] by auto
qed

lemma update_messages_members:
  assumes "m \<in> set (update_messages aid c mdl now prev)"
  shows "id' m = aid \<or> m \<in> set prev"
proof -
  let ?obj = "\<lparr>id' = aid, content = c, sender = Assistant, timestamp = now,
               model = (if ToBoolean mdl then mdl else Some (JString (str ''gemini-pro'')))\<rparr>"
  have "set (update_messages aid c mdl now prev) \<subseteq> insert ?obj (set prev)"
    using set_update_subset_insert [of prev _ ?obj]
    by (auto simp: update_messages_def Let_def)
  with assms show ?thesis by auto
qed

lemma process_line_members:
  assumes "m \<in> set (messages (snd (fst (process_line aid now line d))))"
  shows "id' m = aid \<or> m \<in> set (messages (snd d))"
  using assms
  by (auto simp: process_line_def process_frame_def log_error_def
           split: if_splits option.splits sum.splits dest: update_messages_members)

lemma for_lines_members:
  assumes "m \<in> set (messages (snd (fst (for_lines aid now lines d))))"
  shows "id' m = aid \<or> m \<in> set (messages (snd d))"
  using assms
proof (induction lines arbitrary: d)
  case Nil
  then show ?case by simp
next
  case (Cons l ls)
  obtain d' f where pl: "process_line aid now l d = (d', f)"
    by (cases "process_line aid now l d")
  have step: "\<And>x. x \<in> set (messages (snd d')) \<Longrightarrow> id' x = aid \<or> x \<in> set (messages (snd d))"
    using process_line_members [of _ aid now l d] pl by simp
  show ?case
  proof (cases f)
    case Continue
    with Cons.prems pl have "m \<in> set (messages (snd (fst (for_lines aid now ls d'))))"
      by simp
    from Cons.IH [OF this] step show ?thesis by blast
  next
    case Break
    with Cons.prems pl step show ?thesis by simp
  qed
qed

lemma read_loop_members:
  assumes "m \<in> set (messages (snd (snd (read_loop aid chunks e d))))"
  shows "id' m = aid \<or> m \<in> set (messages (snd d))"
  using assms
proof (induction chunks arbitrary: d)
  case Nil
  then show ?case by (cases e) simp_all
next
  case (Cons c cs)
  then have "m \<in> set (messages (snd (snd (read_loop aid cs e (process_chunk aid c d)))))"
    by simp
  from Cons.IH [OF this] have "id' m = aid \<or> m \<in> set (messages (snd (process_chunk aid c d)))" .
  then show ?case
    using for_lines_members [of m aid "fst c" _ d] by (auto simp: process_chunk_def Let_def)
qed

lemma read_loop_result_members:
  assumes "read_loop aid chunks e d = (x, am, st')" and "m \<in> set (messages st')"
  shows "id' m = aid \<or> m \<in> set (messages (snd d))"
  using read_loop_members [of m aid chunks e d] assms by simp

lemma sendMessageStream_members:
  assumes "m \<in> set (messages (sendMessageStream now_id now_err now_ts fetched st))"
  shows "id' m = toString (now_id + 1) \<or> id' m = toString (now_err + 1) \<or> m \<in> set (messages st)"
  using assms
  by (auto simp: sendMessageStream_def Let_def log_error_def
           split: promise.splits if_splits option.splits prod.splits
           dest: read_loop_result_members)

lemma sendMessageSync_members:
  assumes "m \<in> set (messages (sendMessageSync eng now_id now_ts fetched st))"
  shows "id' m = toString (now_id + 1) \<or> m \<in> set (messages st)"
  using assms
  by (auto simp: sendMessageSync_def Let_def log_error_def
           split: promise.splits if_splits sum.splits)

lemma sendMessage_members:
  assumes "m \<in> set (messages (fst (sendMessage now_id now_ts st)))"
  shows "id' m = toString now_id \<or> m \<in> set (messages st)"
  using assms by (auto simp: sendMessage_def Let_def split: if_splits)

lemma three_chunk_scenario:
  assumes "\<forall>m \<in> set (messages st). id' m \<noteq> aid"
  shows "read_loop aid
           [(t1, bytes_of ''data: {\"content\":\"Hel\"}\<newline>''),
            (t2, bytes_of ''data: {\"content\":\"Hello\"}\<newline>''),
            (t3, bytes_of ''data: {\"type\":\"end\"}\<newline>'')] Done (am, st)
         = (None, (Some (JString (str ''Hello'')),
                   st\<lparr>messages := messages st @
                        [\<lparr>id' = aid, content = Some (JString (str ''Hello'')),
                          sender = Assistant, timestamp = t2,
                          model = Some (JString (str ''gemini-pro''))\<rparr>]\<rparr>))"
proof -
  let ?l1 = "str ''data: {\"content\":\"Hel\"}''"
  let ?l2 = "str ''data: {\"content\":\"Hello\"}''"
  let ?l3 = "str ''data: {\"type\":\"end\"}''"
  let ?f1 = "JObject [(str ''content'', JString (str ''Hel''))]"
  let ?f2 = "JObject [(str ''content'', JString (str ''Hello''))]"
  let ?f3 = "JObject [(str ''type'', JString (str ''end''))]"
  let ?m1 = "\<lparr>id' = aid, content = Some (JString (str ''Hel'')), sender = Assistant,
              timestamp = t1, model = Some (JString (str ''gemini-pro''))\<rparr>"
  let ?m2 = "\<lparr>id' = aid, content = Some (JString (str ''Hello'')), sender = Assistant,
              timestamp = t2, model = Some (JString (str ''gemini-pro''))\<rparr>"
  let ?d1 = "(Some (JString (str ''Hel'')), st\<lparr>messages := messages st @ [?m1]\<rparr>)"
  let ?d2 = "(Some (JString (str ''Hello'')), st\<lparr>messages := messages st @ [?m2]\<rparr>)"
  have a1: "is_ascii ''data: {\"content\":\"Hel\"}\<newline>''"
   and a2: "is_ascii ''data: {\"content\":\"Hello\"}\<newline>''"
   and a3: "is_ascii ''data: {\"type\":\"end\"}\<newline>''"
    by code_simp+
  have s1: "split_on 10 (str ''data: {\"content\":\"Hel\"}\<newline>'') = [?l1, []]"
   and s2: "split_on 10 (str ''data: {\"content\":\"Hello\"}\<newline>'') = [?l2, []]"
   and s3: "split_on 10 (str ''data: {\"type\":\"end\"}\<newline>'') = [?l3, []]"
    by code_simp+
  have w1: "startsWith ?l1 (str ''data: '')" and w2: "startsWith ?l2 (str ''data: '')"
   and w3: "startsWith ?l3 (str ''data: '')"
    by code_simp+
  have p1: "JSON_parse (slice 6 ?l1) = Some ?f1" and p2: "JSON_parse (slice 6 ?l2) = Some ?f2"
   and p3: "JSON_parse (slice 6 ?l3) = Some ?f3"
    by code_simp+
  have c1: "get_field ?f1 (str ''content'') = Inr (Some (JString (str ''Hel'')))"
   and c2: "get_field ?f2 (str ''content'') = Inr (Some (JString (str ''Hello'')))"
   and c3: "get_field ?f3 (str ''content'') = Inr None"
    by code_simp+
  have b1: "ToBoolean (Some (JString (str ''Hel'')))"
   and b2: "ToBoolean (Some (JString (str ''Hello'')))" and b3: "\<not> ToBoolean None"
    by code_simp+
  have g1: "get_field ?f1 (str ''model'') = Inr None"
   and g2: "get_field ?f2 (str ''model'') = Inr None"
   and g3: "get_field ?f3 (str ''type'') = Inr (Some (JString (str ''end'')))"
    by code_simp+
  have first: "process_chunk aid (t1, bytes_of ''data: {\"content\":\"Hel\"}\<newline>'') (am, st) = ?d1"
    using assms
    by (simp add: process_chunk_ascii [OF a1] s1 process_line_content [OF w1 p1 c1 b1 g1]
          process_line_other [OF empty_line] update_messages_fresh)
  have second: "process_chunk aid (t2, bytes_of ''data: {\"content\":\"Hello\"}\<newline>'') ?d1 = ?d2"
    using assms
    by (simp add: process_chunk_ascii [OF a2] s2 process_line_content [OF w2 p2 c2 b2 g2]
          process_line_other [OF empty_line] update_messages_last)
  have third: "process_chunk aid (t3, bytes_of ''data: {\"type\":\"end\"}\<newline>'') ?d2 = ?d2"
    by (simp add: process_chunk_ascii [OF a3] s3 process_line_end [OF w3 p3 c3 b3 g3])
  show ?thesis
    by (simp add: first second third)
qed


lemma ids_upto_step:
  assumes "ids_upto b (messages (ui s))" and "clock b (ev # es) \<noteq> None"
  shows "\<exists>b1. ids_upto b1 (messages (ui (step s ev))) \<and> clock b (ev # es) = clock b1 es"
proof (cases ev)
  case (Submit now_id now_ts)
  with assms(2) have le: "b \<le> now_id" and c: "clock b (ev # es) = clock now_id es"
    by (simp_all split: if_splits)
  have "ids_upto now_id (messages (fst (sendMessage now_id now_ts (ui s))))"
    unfolding ids_upto_def
  proof
    fix m assume "m \<in> set (messages (fst (sendMessage now_id now_ts (ui s))))"
    from sendMessage_members [OF this] ids_upto_mono [OF assms(1) le]
    show "\<exists>k\<le>now_id. id' m = toString k"
      unfolding ids_upto_def by blast
  qed
  moreover have "ui (step s ev) = fst (sendMessage now_id now_ts (ui s))"
    using Submit by (simp split: prod.splits option.splits)
  ultimately show ?thesis using c by auto
next
  case (Settle eng now_id now_err now_ts fetched)
  with assms(2) have le: "b \<le> now_id" "now_id \<le> now_err"
    and c: "clock b (ev # es) = clock (now_err + 1) es"
    by (simp_all split: if_splits)
  have old: "ids_upto (now_err + 1) (messages (ui s))"
    using ids_upto_mono [OF assms(1)] le by simp
  have "ids_upto (now_err + 1) (messages (ui (step s ev)))"
    unfolding ids_upto_def
  proof
    fix m assume m: "m \<in> set (messages (ui (step s ev)))"
    have "id' m = toString (now_id + 1) \<or> id' m = toString (now_err + 1)
            \<or> m \<in> set (messages (ui s))"
    proof (cases "in_flight s")
      case Nil
      with m Settle show ?thesis by simp
    next
      case (Cons r rest)
      show ?thesis
      proof (cases r)
        case (StreamRequest x)
        with m Settle Cons sendMessageStream_members [of m now_id now_err now_ts fetched "ui s"]
        show ?thesis by simp
      next
        case (SyncRequest x)
        with m Settle Cons sendMessageSync_members [of m eng now_id now_ts fetched "ui s"]
        show ?thesis by auto
      qed
    qed
    with old le show "\<exists>k\<le>now_err + 1. id' m = toString k"
      unfolding ids_upto_def by (metis add_le_mono1 le_refl)
  qed
  with c show ?thesis by auto
next
  case (SetInput v)
  with assms show ?thesis by auto
next
  case (SetUseStreaming u)
  with assms show ?thesis by auto
next
  case ClearChat
  with assms show ?thesis by (auto simp: clearChat_def ids_upto_def)
qed

lemma ids_upto_foldl:
  assumes "ids_upto b (messages (ui s))" and "clock b es = Some b'"
  shows "ids_upto b' (messages (ui (foldl step s es)))"
  using assms
proof (induction es arbitrary: b s)
  case Nil
  then show ?case by simp
next
  case (Cons ev es)
  from Cons.prems(2) have "clock b (ev # es) \<noteq> None" by simp
  from ids_upto_step [OF Cons.prems(1) this] obtain b1 where
    "ids_upto b1 (messages (ui (step s ev)))" "clock b (ev # es) = clock b1 es"
    by blast
  with Cons.IH [of b1 "step s ev"] Cons.prems(2) show ?case by simp
qed

lemma ids_upto_run: "clock 0 events = Some b \<Longrightarrow> ids_upto b (messages (ui (run events)))"
  unfolding run_def
  by (rule ids_upto_foldl [of 0]) (simp_all add: ids_upto_def start_def initial_def)

text \<open>
  C3. A stream send is in flight after any run of the component on which the clock
  advances, and its response delivers the three chunks \<^verbatim>\<open>data: {"content":"Hel"}\<close>,
  \<^verbatim>\<open>data: {"content":"Hello"}\<close> and \<^verbatim>\<open>data: {"type":"end"}\<close>, each ended by a newline:
  the read loop ends without error, and the conversation is the one before with
  exactly one message appended, from the assistant, with content \<^verbatim>\<open>Hello\<close>; the
  second frame replaced the message the first one appended.
\<close>

theorem three_chunk_scenario_on_runs:
  assumes "clock 0 events = Some b" and "b \<le> now_id"
      and "in_flight (run events) = StreamRequest sent # rest"
      and "ok r"
      and "body r = Some ([(t1, bytes_of ''data: {\"content\":\"Hel\"}\<newline>''),
                           (t2, bytes_of ''data: {\"content\":\"Hello\"}\<newline>''),
                           (t3, bytes_of ''data: {\"type\":\"end\"}\<newline>'')], Done)"
  shows "read_loop (toString (now_id + 1))
           [(t1, bytes_of ''data: {\"content\":\"Hel\"}\<newline>''),
            (t2, bytes_of ''data: {\"content\":\"Hello\"}\<newline>''),
            (t3, bytes_of ''data: {\"type\":\"end\"}\<newline>'')] Done
           (Some (JString []), ui (run events))
         = (None, (Some (JString (str ''Hello'')),
                   (ui (run events))\<lparr>messages := messages (ui (run events)) @
                        [\<lparr>id' = toString (now_id + 1),
                          content = Some (JString (str ''Hello'')),
                          sender = Assistant, timestamp = t2,
                          model = Some (JString (str ''gemini-pro''))\<rparr>]\<rparr>))
       \<and> ui (step (run events) (Settle eng now_id now_err now_ts (Resolves r)))
         = (ui (run events))\<lparr>messages := messages (ui (run events)) @
                        [\<lparr>id' = toString (now_id + 1),
                          content = Some (JString (str ''Hello'')),
                          sender = Assistant, timestamp = t2,
                          model = Some (JString (str ''gemini-pro''))\<rparr>],
                 isLoading := False\<rparr>"
proof -
  have "b < now_id + 1" using assms(2) by simp
  from ids_upto_fresh [OF ids_upto_run [OF assms(1)] this]
  have fresh: "\<forall>m \<in> set (messages (ui (run events))). id' m \<noteq> toString (now_id + 1)" .
  note loop = three_chunk_scenario [OF fresh, of t1 t2 t3 "Some (JString [])"]
  have "ui (step (run events) (Settle eng now_id now_err now_ts (Resolves r)))
          = sendMessageStream now_id now_err now_ts (Resolves r) (ui (run events))"
    using assms(3) by simp
  also have "\<dots> = (ui (run events))\<lparr>messages := messages (ui (run events)) @
                        [\<lparr>id' = toString (now_id + 1),
                          content = Some (JString (str ''Hello'')),
                          sender = Assistant, timestamp = t2,
                          model = Some (JString (str ''gemini-pro''))\<rparr>],
                 isLoading := False\<rparr>"
    using assms(4,5) loop by (simp add: sendMessageStream_def Let_def)
  finally show ?thesis using loop by simp
qed

theorem three_chunk_scenario_on_runs_witness:
  "clock 0 [SetInput (str ''hi''), Submit 16 16] = Some 16
   \<and> in_flight (run [SetInput (str ''hi''), Submit 16 16]) = [StreamRequest (str ''hi'')]
   \<and> ok \<lparr>status = 200,
          body = Some ([(20, bytes_of ''data: {\"content\":\"Hel\"}\<newline>''),
                        (21, bytes_of ''data: {\"content\":\"Hello\"}\<newline>''),
                        (22, bytes_of ''data: {\"type\":\"end\"}\<newline>'')], Done),
          text_of = Rejects [], json_of = Rejects []\<rparr>
   \<and> ui (step (run [SetInput (str ''hi''), Submit 16 16])
         (Settle \<lparr>null_read_message = (\<lambda>name. []), ToString = (\<lambda>v. [])\<rparr> 16 23 23
            (Resolves \<lparr>status = 200,
               body = Some ([(20, bytes_of ''data: {\"content\":\"Hel\"}\<newline>''),
                             (21, bytes_of ''data: {\"content\":\"Hello\"}\<newline>''),
                             (22, bytes_of ''data: {\"type\":\"end\"}\<newline>'')], Done),
               text_of = Rejects [], json_of = Rejects []\<rparr>)))
       = \<lparr>messages = [\<lparr>id' = str ''16'', content = Some (JString (str ''hi'')),
                         sender = User, timestamp = 16, model = None\<rparr>,
                        \<lparr>id' = str ''17'', content = Some (JString (str ''Hello'')),
                         sender = Assistant, timestamp = 21,
                         model = Some (JString (str ''gemini-pro''))\<rparr>],
            input = [], isLoading = False, useStreaming = True, console = []\<rparr>"
proof -
  let ?events = "[SetInput (str ''hi''), Submit 16 16]"
  let ?r = "\<lparr>status = 200,
          body = Some ([(20 :: nat, bytes_of ''data: {\"content\":\"Hel\"}\<newline>''),
                        (21, bytes_of ''data: {\"content\":\"Hello\"}\<newline>''),
                        (22, bytes_of ''data: {\"type\":\"end\"}\<newline>'')], Done),
          text_of = Rejects [], json_of = Rejects []\<rparr>"
  have h1: "clock 0 ?events = Some 16"
    by simp
  have h2: "(16 :: nat) \<le> 16"
    by simp
  have before: "run ?events
      = \<lparr>ui = \<lparr>messages = [\<lparr>id' = str ''16'', content = Some (JString (str ''hi'')),
                               sender = User, timestamp = 16, model = None\<rparr>],
                 input = [], isLoading = True, useStreaming = True, console = []\<rparr>,
          in_flight = [StreamRequest (str ''hi'')]\<rparr>"
    by code_simp
  then have h3: "in_flight (run ?events) = StreamRequest (str ''hi'') # []"
    by simp
  have h4: "ok ?r"
    by (simp add: ok_def)
  have h5: "body ?r = Some ([(20, bytes_of ''data: {\"content\":\"Hel\"}\<newline>''),
                             (21, bytes_of ''data: {\"content\":\"Hello\"}\<newline>''),
                             (22, bytes_of ''data: {\"type\":\"end\"}\<newline>'')], Done)"
    by simp
  have id17: "toString 17 = str ''17''"
    by code_simp
  from three_chunk_scenario_on_runs [OF h1 h2 h3 h4 h5,
         of "\<lparr>null_read_message = (\<lambda>name. []), ToString = (\<lambda>v. [])\<rparr>" 23 23]
  show ?thesis
    using h1 h3 h4 by (simp add: before id17)
qed


text \<open>
  C4, as amended. A frame that parses, whose \<^verbatim>\<open>content\<close> is absent or falsy and whose
  \<^verbatim>\<open>type\<close> is \<^verbatim>\<open>"end"\<close>, ends the loop over the lines of its chunk and nothing else:
  the lines after it in the chunk are not processed (the state is the one reached
  before the frame), and the read loop goes on with the chunks that follow.
\<close>

theorem end_frame_breaks_inner_loop_only:
  assumes "startsWith line (str ''data: '')"
      and "JSON_parse (slice 6 line) = Some data"
      and "get_field data (str ''content'') = Inr c" and "\<not> ToBoolean c"
      and "get_field data (str ''type'') = Inr (Some (JString (str ''end'')))"
      and "split_on 10 (TextDecoder_decode (snd ch)) = pre @ line # post"
      and "for_lines aid (fst ch) pre d = (d1, Continue)"
  shows "for_lines aid (fst ch) (pre @ line # post) d = (d1, Break)
       \<and> read_loop aid (ch # cs) e d = read_loop aid cs e d1"
proof -
  have one: "process_line aid (fst ch) line d1 = (d1, Break)"
    using assms(1-5) by (rule process_line_end)
  have two: "for_lines aid (fst ch) (pre @ line # post) d = (d1, Break)"
    using for_lines_append [OF assms(7)] one by simp
  then show ?thesis using assms(6) by (simp add: process_chunk_def)
qed

theorem end_frame_breaks_inner_loop_only_witness:
  "startsWith (str ''data: {\"type\":\"end\"}'') (str ''data: '')
   \<and> JSON_parse (slice 6 (str ''data: {\"type\":\"end\"}''))
       = Some (JObject [(str ''type'', JString (str ''end''))])
   \<and> get_field (JObject [(str ''type'', JString (str ''end''))]) (str ''content'') = Inr None
   \<and> \<not> ToBoolean None
   \<and> get_field (JObject [(str ''type'', JString (str ''end''))]) (str ''type'')
       = Inr (Some (JString (str ''end'')))
   \<and> split_on 10 (TextDecoder_decode
         (bytes_of ''data: {\"type\":\"end\"}\<newline>data: {\"content\":\"late\"}''))
       = [str ''data: {\"type\":\"end\"}'', str ''data: {\"content\":\"late\"}'']
   \<and> read_loop (str ''17'')
         [(5, bytes_of ''data: {\"type\":\"end\"}\<newline>data: {\"content\":\"late\"}''),
          (6, bytes_of ''data: {\"content\":\"next\"}'')]
         Done (Some (JString []), initial)
       = (None, (Some (JString (str ''next'')),
           \<lparr>messages = [\<lparr>id' = str ''17'', content = Some (JString (str ''next'')),
                          sender = Assistant, timestamp = 6,
                          model = Some (JString (str ''gemini-pro''))\<rparr>],
             input = [], isLoading = False, useStreaming = True, console = []\<rparr>))"
proof -
  let ?ch = "(5 :: nat, bytes_of ''data: {\"type\":\"end\"}\<newline>data: {\"content\":\"late\"}'')"
  let ?d = "(Some (JString []), initial)"
  have h1: "startsWith (str ''data: {\"type\":\"end\"}'') (str ''data: '')"
    by code_simp
  have h2: "JSON_parse (slice 6 (str ''data: {\"type\":\"end\"}''))
       = Some (JObject [(str ''type'', JString (str ''end''))])"
    by code_simp
  have h3: "get_field (JObject [(str ''type'', JString (str ''end''))]) (str ''content'') = Inr None"
    by code_simp
  have h4: "\<not> ToBoolean None"
    by simp
  have h5: "get_field (JObject [(str ''type'', JString (str ''end''))]) (str ''type'')
       = Inr (Some (JString (str ''end'')))"
    by code_simp
  have ascii: "is_ascii ''data: {\"type\":\"end\"}\<newline>data: {\"content\":\"late\"}''"
    by code_simp
  have lines: "split_on 10 (str ''data: {\"type\":\"end\"}\<newline>data: {\"content\":\"late\"}'')
       = [str ''data: {\"type\":\"end\"}'', str ''data: {\"content\":\"late\"}'']"
    by code_simp
  have h6: "split_on 10 (TextDecoder_decode (snd ?ch))
       = [] @ str ''data: {\"type\":\"end\"}'' # [str ''data: {\"content\":\"late\"}'']"
    using lines by (simp add: TextDecoder_decode_ascii_only [OF ascii])
  have h7: "for_lines (str ''17'') (fst ?ch) [] ?d = (?d, Continue)"
    by simp
  have ascii': "is_ascii ''data: {\"content\":\"next\"}''"
    by code_simp
  have next_chunk: "fst (for_lines (str ''17'') 6 (split_on 10 (str ''data: {\"content\":\"next\"}''))
                     (Some (JString []), initial))
       = (Some (JString (str ''next'')),
           \<lparr>messages = [\<lparr>id' = str ''17'', content = Some (JString (str ''next'')),
                          sender = Assistant, timestamp = 6,
                          model = Some (JString (str ''gemini-pro''))\<rparr>],
             input = [], isLoading = False, useStreaming = True, console = []\<rparr>)"
    by code_simp
  have "read_loop (str ''17'') [?ch, (6, bytes_of ''data: {\"content\":\"next\"}'')] Done ?d
       = (None, (Some (JString (str ''next'')),
           \<lparr>messages = [\<lparr>id' = str ''17'', content = Some (JString (str ''next'')),
                          sender = Assistant, timestamp = 6,
                          model = Some (JString (str ''gemini-pro''))\<rparr>],
             input = [], isLoading = False, useStreaming = True, console = []\<rparr>))"
    using end_frame_breaks_inner_loop_only [OF h1 h2 h3 h4 h5 h6 h7,
            of "[(6, bytes_of ''data: {\"content\":\"next\"}'')]" Done]
    by (simp add: process_chunk_ascii [OF ascii'] next_chunk)
  with h1 h2 h3 h4 h5 h6 show ?thesis by simp
qed

text \<open>
  As the claim has it, for every parsed frame whose \<^verbatim>\<open>type\<close> is \<^verbatim>\<open>"end"\<close>, it fails
  when the frame also has a truthy \<^verbatim>\<open>content\<close>: the \<^verbatim>\<open>content\<close> branch is taken, the
  loop is not left, and the \<^verbatim>\<open>data: \<close> line after it in the same chunk is processed.
\<close>

theorem end_frame_with_content_does_not_break:
  "JSON_parse (slice 6 (str ''data: {\"content\":\"x\",\"type\":\"end\"}''))
     = Some (JObject [(str ''content'', JString (str ''x'')), (str ''type'', JString (str ''end''))])
   \<and> get_field (JObject [(str ''content'', JString (str ''x'')),
                         (str ''type'', JString (str ''end''))]) (str ''type'')
     = Inr (Some (JString (str ''end'')))
   \<and> for_lines (str ''17'') 5
         [str ''data: {\"content\":\"x\",\"type\":\"end\"}'', str ''data: {\"content\":\"y\"}'']
         (Some (JString []), initial)
     = ((Some (JString (str ''y'')),
         \<lparr>messages = [\<lparr>id' = str ''17'', content = Some (JString (str ''y'')),
                        sender = Assistant, timestamp = 5,
                        model = Some (JString (str ''gemini-pro''))\<rparr>],
           input = [], isLoading = False, useStreaming = True, console = []\<rparr>), Continue)"
  by code_simp


section \<open>Properties of sending\<close>

lemma sendMessage_busy: "isLoading st \<Longrightarrow> sendMessage now_id now_ts st = (st, None)"
  by (simp add: sendMessage_def)

lemma sendMessage_issues:
  "sendMessage now_id now_ts st = (st', Some r) \<Longrightarrow> \<not> isLoading st \<and> isLoading st'"
  by (auto simp: sendMessage_def Let_def split: if_splits)

lemma sendMessage_rejects:
  "sendMessage now_id now_ts st = (st', None) \<Longrightarrow> st' = st"
  by (auto simp: sendMessage_def Let_def split: if_splits)

lemma sendMessageStream_idle: "\<not> isLoading (sendMessageStream a b c fetched st)"
  by (simp add: sendMessageStream_def Let_def)

lemma sendMessageSync_idle: "\<not> isLoading (sendMessageSync eng a c fetched st)"
  by (simp add: sendMessageSync_def Let_def)

definition one_pending :: "system \<Rightarrow> bool" where
  "one_pending s = (length (in_flight s) \<le> 1 \<and> (isLoading (ui s) = (in_flight s \<noteq> [])))"

lemma one_pending_step:
  assumes "one_pending s"
  shows "one_pending (step s e)"
proof (cases e)
  case (Submit now_id now_ts)
  obtain st' req where sm: "sendMessage now_id now_ts (ui s) = (st', req)"
    by (cases "sendMessage now_id now_ts (ui s)")
  show ?thesis
  proof (cases req)
    case None
    with sm sendMessage_rejects [of now_id now_ts "ui s" st'] assms Submit
    show ?thesis by (simp add: one_pending_def)
  next
    case (Some r)
    with sm sendMessage_issues [of now_id now_ts "ui s" st' r] assms Submit
    show ?thesis by (simp add: one_pending_def)
  qed
next
  case (Settle eng a b c fetched)
  show ?thesis
  proof (cases "in_flight s")
    case Nil
    with assms Settle show ?thesis by simp
  next
    case (Cons r rest)
    with assms have "rest = []" by (simp add: one_pending_def)
    with Cons Settle show ?thesis
      by (cases r) (simp_all add: one_pending_def sendMessageStream_idle sendMessageSync_idle)
  qed
next
  case (SetInput v)
  with assms show ?thesis by (simp add: one_pending_def)
next
  case (SetUseStreaming b)
  with assms show ?thesis by (simp add: one_pending_def)
next
  case ClearChat
  with assms show ?thesis by (simp add: one_pending_def clearChat_def)
qed

lemma one_pending_run: "one_pending (run events)"
proof (induction events rule: rev_induct)
  case Nil
  show ?case by (simp add: run_def start_def initial_def one_pending_def)
next
  case (snoc e events)
  then show ?case
    using one_pending_step [of "run events" e] by (simp add: run_def)
qed

text \<open>
  C9. While the busy flag is set, \<^verbatim>\<open>sendMessage\<close> returns at its guard: the state is
  the same and no request is issued. Hence, whatever the user and the network do, at
  most one request is ever in flight, and while one is, a further submission changes
  nothing: no message is appended and nothing is queued behind it.
\<close>

theorem second_send_rejected:
  "(isLoading st \<longrightarrow> sendMessage now_id now_ts st = (st, None))
   \<and> length (in_flight (run events)) \<le> 1
   \<and> (in_flight (run events) \<noteq> [] \<longrightarrow>
        step (run events) (Submit now_id now_ts) = run events)"
proof (intro conjI impI)
  assume "isLoading st"
  then show "sendMessage now_id now_ts st = (st, None)"
    by (rule sendMessage_busy)
next
  show "length (in_flight (run events)) \<le> 1"
    using one_pending_run [of events] by (simp add: one_pending_def)
next
  assume "in_flight (run events) \<noteq> []"
  then have "isLoading (ui (run events))"
    using one_pending_run [of events] by (simp add: one_pending_def)
  then show "step (run events) (Submit now_id now_ts) = run events"
    by (simp add: sendMessage_busy)
qed

theorem second_send_rejected_witness:
  "isLoading \<lparr>messages = [], input = str ''again'', isLoading = True, useStreaming = True,
              console = []\<rparr>
   \<and> sendMessage 7 8 \<lparr>messages = [], input = str ''again'', isLoading = True,
                        useStreaming = True, console = []\<rparr>
       = (\<lparr>messages = [], input = str ''again'', isLoading = True, useStreaming = True,
            console = []\<rparr>, None)
   \<and> in_flight (run [SetInput (str ''hi''), Submit 5 6, SetInput (str ''again''), Submit 7 8])
       = [StreamRequest (str ''hi'')]
   \<and> step (run [SetInput (str ''hi''), Submit 5 6, SetInput (str ''again''), Submit 7 8])
         (Submit 9 10)
       = run [SetInput (str ''hi''), Submit 5 6, SetInput (str ''again''), Submit 7 8]"
proof -
  let ?st = "\<lparr>messages = [], input = str ''again'', isLoading = True, useStreaming = True,
              console = []\<rparr>"
  let ?events = "[SetInput (str ''hi''), Submit 5 6, SetInput (str ''again''), Submit 7 8]"
  have busy: "isLoading ?st"
    by simp
  have pending: "in_flight (run ?events) = [StreamRequest (str ''hi'')]"
    by code_simp
  then have some: "in_flight (run ?events) \<noteq> []"
    by simp
  from second_send_rejected [of ?st 7 8 ?events] busy
  have one: "sendMessage 7 8 ?st = (?st, None)"
    by blast
  from second_send_rejected [of ?st 9 10 ?events] some
  have two: "step (run ?events) (Submit 9 10) = run ?events"
    by blast
  from busy one pending two show ?thesis
    by blast
qed


section \<open>Properties of the transport proxy\<close>












section \<open>Decoding chunk by chunk\<close>

subsection \<open>The UTF-8 form of a character, and the decoder on it\<close>



































subsection \<open>A character split across two chunks\<close>




end
